theory Spec2Isabelle
  imports Complex_Main "HOL-Library.Sublist"
begin

section \<open>Python strings\<close>

text \<open>
  A Python \<open>str\<close> is modelled as a \<open>string\<close> (a list of characters; code points
  below 256). \<open>py_in sub s\<close> is the operator \<open>sub in s\<close>; \<open>py_split sep s\<close> is
  \<open>s.split(sep)\<close> for a non-empty separator: the string is scanned from the left and cut at
  every occurrence found, occurrences never overlap. Python raises \<open>ValueError\<close> on an empty
  separator; every call of the program passes a non-empty literal, and for an empty separator
  this function returns the string uncut.
\<close>

fun py_in :: "string \<Rightarrow> string \<Rightarrow> bool" where
  "py_in sub [] = (sub = [])"
| "py_in sub (c # cs) = (prefix sub (c # cs) \<or> py_in sub cs)"

fun py_split :: "string \<Rightarrow> string \<Rightarrow> string list" where
  "py_split sep [] = [[]]"
| "py_split sep (c # cs) =
     (if sep \<noteq> [] \<and> prefix sep (c # cs)
      then [] # py_split sep (drop (length sep) (c # cs))
      else (case py_split sep cs of
              [] \<Rightarrow> [[c]]
            | p # ps \<Rightarrow> (c # p) # ps))"

text \<open>\<open>str.isspace\<close> on the code points below 256, and \<open>str.strip()\<close>.\<close>

definition py_isspace :: "char \<Rightarrow> bool" where
  "py_isspace c =
     ((of_char c :: nat) \<in> set [9, 10, 11, 12, 13, 28, 29, 30, 31, 32, 133, 160])"

definition strip :: "string \<Rightarrow> string" where
  "strip s = rev (dropWhile py_isspace (rev (dropWhile py_isspace s)))"

section \<open>Exceptions and the body of an HTTP error\<close>

text \<open>
  The value of \<open>json.loads\<close>: a dict is an association list, a number keeps its lexeme
  (no operation of the program looks inside a number).
\<close>

datatype json =
    JNull
  | JBool bool
  | JNum string
  | JStr string
  | JArr "json list"
  | JObj "(string \<times> json) list"

text \<open>
  An \<open>HttpError\<close> carries its response body. \<open>content_json\<close> is the value of
  \<open>json.loads(e.content.decode("utf-8"))\<close>, \<open>None\<close> when decoding or parsing raises.
\<close>

datatype http_error = HttpErr (content_json: "json option")

text \<open>
  The exceptions of the program, all of them subclasses of \<open>Exception\<close>. \<open>OtherError\<close>
  stands for any further exception a request can raise (a transport failure, a timeout, an
  expired credential); \<open>KeyError\<close> also covers a response without the \<open>items\<close> key.
\<close>

datatype exc =
    HttpError http_error
  | ValueError string
  | ZeroDivisionError
  | JSONDecodeError
  | AttributeError
  | IndexError
  | KeyError
  | TypeError
  | OtherError string

fun http_error_of :: "exc \<Rightarrow> http_error option" where
  "http_error_of (HttpError e) = Some e"
| "http_error_of _ = None"

text \<open>\<open>v.get(k, d)\<close>: only a dict has the method.\<close>

fun py_get :: "json \<Rightarrow> string \<Rightarrow> json \<Rightarrow> exc + json" where
  "py_get (JObj kvs) k d = Inr (case map_of kvs k of None \<Rightarrow> d | Some v \<Rightarrow> v)"
| "py_get _ k d = Inl AttributeError"

text \<open>
  \<open>v[0]\<close>: the first element of a list, the first character of a string, a key lookup in
  a dict (whose keys are strings, so the key \<open>0\<close> is never there), a \<open>TypeError\<close> on
  anything else.
\<close>

fun py_index0 :: "json \<Rightarrow> exc + json" where
  "py_index0 (JArr []) = Inl IndexError"
| "py_index0 (JArr (x # xs)) = Inr x"
| "py_index0 (JStr []) = Inl IndexError"
| "py_index0 (JStr (c # cs)) = Inr (JStr [c])"
| "py_index0 (JObj kvs) = Inl KeyError"
| "py_index0 _ = Inl TypeError"

text \<open>
  The handler of \<open>subscribe_to_channel\<close>, lines 166 to 171:
  \<open>error_details.get("error", {}).get("errors", [{}])[0].get("reason", "unknown")\<close>.
\<close>

definition error_reason :: "http_error \<Rightarrow> exc + json" where
  "error_reason e =
     (case content_json e of
        None \<Rightarrow> Inl JSONDecodeError
      | Some error_details \<Rightarrow>
          (case py_get error_details ''error'' (JObj []) of
             Inl x \<Rightarrow> Inl x
           | Inr a \<Rightarrow>
               (case py_get a ''errors'' (JArr [JObj []]) of
                  Inl x \<Rightarrow> Inl x
                | Inr b \<Rightarrow>
                    (case py_index0 b of
                       Inl x \<Rightarrow> Inl x
                     | Inr c \<Rightarrow> py_get c ''reason'' (JStr ''unknown'')))))"

section \<open>The environment: the URL parser and the YouTube service\<close>

text \<open>
  Everything the program does to the outside is an event: a request to the service or a
  suspension of \<open>time.sleep\<close>. The history of a run is the list of its events, oldest first.
  The service answers a request as a function of the history so far, so that any sequence of
  answers, of a service with state of its own, is one such function. A request returns the
  \<open>items\<close> of its response (channel or subscription identifiers) or raises.

  \<open>urlparse_error\<close> is what \<open>urllib.parse.urlparse\<close> does on a string: \<open>Some msg\<close> when it
  raises \<open>ValueError(msg)\<close>, \<open>None\<close> when it returns.

  The delay is a duration of any type \<open>'d\<close> (\<open>time.sleep\<close> accepts no negative number).
\<close>

datatype call =
    SearchList string
  | ChannelsList string
  | SubscriptionsList string
  | SubscriptionsInsert string

datatype 'd event = Call call | Sleep 'd

type_synonym response = "exc + string list"

record 'd env =
  urlparse_error :: "string \<Rightarrow> string option"
  youtube :: "'d event list \<Rightarrow> call \<Rightarrow> response"

definition execute :: "'d env \<Rightarrow> call \<Rightarrow> 'd event list \<Rightarrow> response \<times> 'd event list" where
  "execute env c h = (youtube env h c, h @ [Call c])"

section \<open>Identifier resolution\<close>

text \<open>Lines 89 to 94 of \<open>resolve_custom_url\<close>: the query of the channel search.\<close>

definition search_query :: "string \<Rightarrow> string" where
  "search_query url =
     (if py_in ''@'' url
      then ''@'' @ hd (py_split ''?'' (last (py_split ''@'' url)))
      else hd (py_split ''?'' (last (py_split ''c/'' url))))"

text \<open>The handler of \<open>HttpError\<close> prints and raises the same exception again.\<close>

definition resolve_custom_url ::
  "'d env \<Rightarrow> string \<Rightarrow> 'd event list \<Rightarrow> (exc + string) \<times> 'd event list" where
  "resolve_custom_url env url h =
     (case execute env (SearchList (search_query url)) h of
        (Inl e, h') \<Rightarrow> (Inl e, h')
      | (Inr items, h') \<Rightarrow>
          (case items of
             [] \<Rightarrow> (Inl (ValueError (''Could not find channel for URL: '' @ url)), h')
           | channel_id # _ \<Rightarrow> (Inr channel_id, h')))"

definition get_channel_id_by_username ::
  "'d env \<Rightarrow> string \<Rightarrow> 'd event list \<Rightarrow> (exc + string) \<times> 'd event list" where
  "get_channel_id_by_username env username h =
     (case execute env (ChannelsList username) h of
        (Inl e, h') \<Rightarrow> (Inl e, h')
      | (Inr items, h') \<Rightarrow>
          (case items of
             [] \<Rightarrow> (Inl (ValueError (''Channel not found for username: '' @ username)), h')
           | channel_id # _ \<Rightarrow> (Inr channel_id, h')))"

text \<open>
  \<open>extract_channel_id\<close> first calls \<open>urlparse(url)\<close>, whose result it never reads but
  which raises on some strings, then dispatches on the markers in the order of the source.
\<close>

definition extract_channel_id ::
  "'d env \<Rightarrow> string \<Rightarrow> 'd event list \<Rightarrow> (exc + string) \<times> 'd event list" where
  "extract_channel_id env url h =
     (case urlparse_error env url of
        Some msg \<Rightarrow> (Inl (ValueError msg), h)
      | None \<Rightarrow>
          if py_in ''channel/'' url
          then (Inr (hd (py_split ''?'' (last (py_split ''channel/'' url)))), h)
          else if py_in ''c/'' url \<or> py_in ''@'' url
          then resolve_custom_url env url h
          else if py_in ''user/'' url
          then get_channel_id_by_username env
                 (hd (py_split ''?'' (last (py_split ''user/'' url)))) h
          else (Inl (ValueError (''Unable to parse channel URL: '' @ url)), h))"

section \<open>Subscription\<close>

text \<open>
  \<open>subscribe_to_channel\<close> returns a boolean and prints which of three things happened:
  "Already subscribed", "Successfully subscribed" or "Failed to subscribe" with the error.
  \<open>subscribe_outcome\<close> returns which; the boolean of the source is \<open>succeeded\<close> of it.
\<close>

datatype outcome = AlreadySubscribed | Created | Failed http_error

fun succeeded :: "outcome \<Rightarrow> bool" where
  "succeeded AlreadySubscribed = True"
| "succeeded Created = True"
| "succeeded (Failed e) = False"

text \<open>
  Lines 146 to 178: the insert request and the handler of its \<open>HttpError\<close>. Any other
  exception of the request, and an exception raised inside the handler, leaves the function.
\<close>

definition create_subscription ::
  "'d env \<Rightarrow> string \<Rightarrow> 'd event list \<Rightarrow> (exc + outcome) \<times> 'd event list" where
  "create_subscription env channel_id h =
     (case execute env (SubscriptionsInsert channel_id) h of
        (Inr subscription_response, h') \<Rightarrow> (Inr Created, h')
      | (Inl ex, h') \<Rightarrow>
          (case http_error_of ex of
             None \<Rightarrow> (Inl ex, h')
           | Some e \<Rightarrow>
               (case error_reason e of
                  Inl ex' \<Rightarrow> (Inl ex', h')
                | Inr reason \<Rightarrow>
                    if reason = JStr ''subscriptionDuplicate''
                    then (Inr AlreadySubscribed, h')
                    else (Inr (Failed e), h'))))"

text \<open>
  Lines 131 to 143: the check for an existing subscription. Its handler catches
  \<open>HttpError\<close> only; the handler of the outer \<open>try\<close> catches \<open>HttpError\<close> only as well.
\<close>

definition subscribe_outcome ::
  "'d env \<Rightarrow> string \<Rightarrow> 'd event list \<Rightarrow> (exc + outcome) \<times> 'd event list" where
  "subscribe_outcome env channel_id h =
     (case execute env (SubscriptionsList channel_id) h of
        (Inr items, h') \<Rightarrow>
          if items \<noteq> [] then (Inr AlreadySubscribed, h')
          else create_subscription env channel_id h'
      | (Inl ex, h') \<Rightarrow>
          (case http_error_of ex of
             Some e \<Rightarrow> create_subscription env channel_id h'
           | None \<Rightarrow> (Inl ex, h')))"

definition subscribe_to_channel ::
  "'d env \<Rightarrow> string \<Rightarrow> 'd event list \<Rightarrow> (exc + bool) \<times> 'd event list" where
  "subscribe_to_channel env channel_id h =
     (case subscribe_outcome env channel_id h of
        (Inl ex, h') \<Rightarrow> (Inl ex, h')
      | (Inr out, h') \<Rightarrow> (Inr (succeeded out), h'))"

section \<open>The bulk run\<close>

record 'd run_state =
  successful :: nat
  failed :: nat
  history :: "'d event list"

text \<open>Lines 191 to 196, the body of the \<open>try\<close>: the boolean tells which counter grows.\<close>

definition item_attempt ::
  "'d env \<Rightarrow> string \<Rightarrow> 'd event list \<Rightarrow> (exc + bool) \<times> 'd event list" where
  "item_attempt env url h =
     (case extract_channel_id env (strip url) h of
        (Inl ex, h') \<Rightarrow> (Inl ex, h')
      | (Inr channel_id, h') \<Rightarrow> subscribe_to_channel env channel_id h')"

text \<open>Lines 190 to 200: the \<open>try\<close> with its handler \<open>except Exception\<close>.\<close>

definition process_item :: "'d env \<Rightarrow> string \<Rightarrow> 'd run_state \<Rightarrow> 'd run_state" where
  "process_item env url st =
     (case item_attempt env url (history st) of
        (Inr ok, h') \<Rightarrow>
          if ok then st\<lparr>successful := successful st + 1, history := h'\<rparr>
          else st\<lparr>failed := failed st + 1, history := h'\<rparr>
      | (Inl ex, h') \<Rightarrow> st\<lparr>failed := failed st + 1, history := h'\<rparr>)"

text \<open>Lines 203 and 204: \<open>n\<close> is \<open>len(channel_urls)\<close>, \<open>i\<close> the index of the item from 1.\<close>

definition rate_limit :: "'d \<Rightarrow> nat \<Rightarrow> nat \<Rightarrow> 'd run_state \<Rightarrow> 'd run_state" where
  "rate_limit delay n i st =
     (if i < n then st\<lparr>history := history st @ [Sleep delay]\<rparr> else st)"

fun bulk_loop ::
  "'d env \<Rightarrow> 'd \<Rightarrow> nat \<Rightarrow> nat \<Rightarrow> string list \<Rightarrow> 'd run_state \<Rightarrow> 'd run_state" where
  "bulk_loop env delay n i [] st = st"
| "bulk_loop env delay n i (url # rest) st =
     bulk_loop env delay n (Suc i) rest (rate_limit delay n i (process_item env url st))"

text \<open>
  Line 209: \<open>successful / (successful + failed) * 100\<close>. The quotient is taken in the
  rationals; the rounding of floating point and of the format \<open>.1f\<close> is not modelled.
\<close>

definition success_rate :: "nat \<Rightarrow> nat \<Rightarrow> exc + rat" where
  "success_rate s f =
     (if s + f = 0 then Inl ZeroDivisionError
      else Inr (of_nat s / of_nat (s + f) * 100))"

definition initial_state :: "'d event list \<Rightarrow> 'd run_state" where
  "initial_state h = \<lparr>successful = 0, failed = 0, history = h\<rparr>"

text \<open>
  \<open>bulk_subscribe\<close> returns the rate it prints, or the exception of line 209, and the
  state the loop ended in, whose counters lines 207 and 208 have printed by then.
\<close>

definition bulk_subscribe ::
  "'d env \<Rightarrow> string list \<Rightarrow> 'd \<Rightarrow> 'd event list \<Rightarrow> (exc + rat) \<times> 'd run_state" where
  "bulk_subscribe env channel_urls delay h =
     (let st = bulk_loop env delay (length channel_urls) 1 channel_urls (initial_state h)
      in (success_rate (successful st) (failed st), st))"

text \<open>The suspensions of a history, in order, each with its duration.\<close>

fun sleeps :: "'d event list \<Rightarrow> 'd list" where
  "sleeps [] = []"
| "sleeps (Call c # es) = sleeps es"
| "sleeps (Sleep d # es) = d # sleeps es"

section \<open>What the service is expected to do for a subscribed channel\<close>

text \<open>
  The service is no part of the program. For the properties that depend on it, its part is
  stated as a predicate. An event of the history confirms the subscription to a channel
  when it is a check that found a match, an insert that was accepted, or an insert that was
  refused as a duplicate.
\<close>

definition confirmed_by :: "'d env \<Rightarrow> string \<Rightarrow> 'd event list \<Rightarrow> 'd event \<Rightarrow> bool" where
  "confirmed_by env channel_id pre ev =
     ((ev = Call (SubscriptionsList channel_id) \<and>
         (case youtube env pre (SubscriptionsList channel_id) of
            Inr items \<Rightarrow> items \<noteq> []
          | Inl ex \<Rightarrow> False)) \<or>
      (ev = Call (SubscriptionsInsert channel_id) \<and>
         (case youtube env pre (SubscriptionsInsert channel_id) of
            Inr r \<Rightarrow> True
          | Inl ex \<Rightarrow>
              (case http_error_of ex of
                 None \<Rightarrow> False
               | Some e \<Rightarrow> error_reason e = Inr (JStr ''subscriptionDuplicate'')))))"

definition known_subscribed :: "'d env \<Rightarrow> string \<Rightarrow> 'd event list \<Rightarrow> bool" where
  "known_subscribed env channel_id h =
     (\<exists>pre ev post. h = pre @ ev # post \<and> confirmed_by env channel_id pre ev)"

text \<open>
  Once the subscription is confirmed, the service answers a check with a list (a match, or
  none when the check is stale) or an \<open>HttpError\<close>, and refuses an insert as a duplicate.
\<close>

definition reports_duplicate :: "'d env \<Rightarrow> string \<Rightarrow> bool" where
  "reports_duplicate env channel_id =
     (\<forall>h. known_subscribed env channel_id h \<longrightarrow>
        (case youtube env h (SubscriptionsList channel_id) of
           Inr items \<Rightarrow> True
         | Inl ex \<Rightarrow> http_error_of ex \<noteq> None) \<and>
        (case youtube env h (SubscriptionsInsert channel_id) of
           Inr r \<Rightarrow> False
         | Inl ex \<Rightarrow>
             (case http_error_of ex of
                None \<Rightarrow> False
              | Some e \<Rightarrow> error_reason e = Inr (JStr ''subscriptionDuplicate''))))"

section \<open>Concrete environments\<close>

text \<open>
  The check of \<open>urllib.parse.urlsplit\<close> (CPython, \<open>Lib/urllib/parse.py\<close>) that makes
  \<open>urlparse\<close> raise: after the scheme, a string that starts with \<open>//\<close> has a network
  location, up to the first of \<open>/\<close>, \<open>?\<close> and \<open>#\<close>; a network location with one square
  bracket and not the other raises \<open>ValueError("Invalid IPv6 URL")\<close>. The other checks of
  the library are left out: this is the parser of the examples, no theorem about every
  environment depends on it.
\<close>

definition ascii_letters :: string where
  "ascii_letters = ''abcdefghijklmnopqrstuvwxyzABCDEFGHIJKLMNOPQRSTUVWXYZ''"

definition scheme_chars :: string where
  "scheme_chars = ascii_letters @ ''0123456789+-.''"

definition after_scheme :: "string \<Rightarrow> string" where
  "after_scheme url =
     (let pre = takeWhile (\<lambda>c. c \<noteq> CHR '':'') url
      in if pre \<noteq> [] \<and> length pre < length url \<and> hd url \<in> set ascii_letters \<and>
            list_all (\<lambda>c. c \<in> set scheme_chars) pre
         then drop (Suc (length pre)) url
         else url)"

definition netloc :: "string \<Rightarrow> string" where
  "netloc url =
     (let rest = after_scheme url
      in if take 2 rest = ''//''
         then takeWhile (\<lambda>c. c \<notin> set ''/?#'') (drop 2 rest)
         else [])"

definition cpython_urlparse_error :: "string \<Rightarrow> string option" where
  "cpython_urlparse_error url =
     (let n = netloc url
      in if (CHR ''['' \<in> set n \<and> CHR '']'' \<notin> set n) \<or>
            (CHR '']'' \<in> set n \<and> CHR ''['' \<notin> set n)
         then Some ''Invalid IPv6 URL''
         else None)"

text \<open>The bodies of two errors of the service, as the YouTube Data API sends them.\<close>

definition duplicate_error :: http_error where
  "duplicate_error =
     HttpErr (Some (JObj [(''error'',
        JObj [(''code'', JNum ''400''),
              (''errors'', JArr [JObj [(''reason'', JStr ''subscriptionDuplicate'')]])])]))"

definition quota_error :: http_error where
  "quota_error =
     HttpErr (Some (JObj [(''error'',
        JObj [(''code'', JNum ''403''),
              (''errors'', JArr [JObj [(''reason'', JStr ''quotaExceeded'')]])])]))"

text \<open>
  A service that knows one handle, accepts the first insert for a channel and refuses the
  next ones as duplicates, and whose check is stale: it never finds a match.
\<close>

definition stale_youtube :: "nat event list \<Rightarrow> call \<Rightarrow> response" where
  "stale_youtube h c =
     (case c of
        SearchList q \<Rightarrow> if q = ''@someuser'' then Inr [''UCsearched''] else Inr []
      | ChannelsList username \<Rightarrow> Inr []
      | SubscriptionsList channel_id \<Rightarrow> Inr []
      | SubscriptionsInsert channel_id \<Rightarrow>
          if Call (SubscriptionsInsert channel_id) \<in> set h
          then Inl (HttpError duplicate_error)
          else Inr [channel_id])"

definition stale_env :: "nat env" where
  "stale_env = \<lparr>urlparse_error = cpython_urlparse_error, youtube = stale_youtube\<rparr>"

text \<open>
  A service out of quota: the check raises an \<open>HttpError\<close>, the first insert for a channel
  is still accepted, every later one is refused for the quota.
\<close>

definition quota_youtube :: "nat event list \<Rightarrow> call \<Rightarrow> response" where
  "quota_youtube h c =
     (case c of
        SearchList q \<Rightarrow> Inl (HttpError quota_error)
      | ChannelsList username \<Rightarrow> Inl (HttpError quota_error)
      | SubscriptionsList channel_id \<Rightarrow> Inl (HttpError quota_error)
      | SubscriptionsInsert channel_id \<Rightarrow>
          if Call (SubscriptionsInsert channel_id) \<in> set h
          then Inl (HttpError quota_error)
          else Inr [channel_id])"

definition quota_env :: "nat env" where
  "quota_env = \<lparr>urlparse_error = cpython_urlparse_error, youtube = quota_youtube\<rparr>"

text \<open>A service that cannot be reached: every request raises a transport error.\<close>

definition offline_env :: "nat env" where
  "offline_env =
     \<lparr>urlparse_error = cpython_urlparse_error,
      youtube = (\<lambda>h c. Inl (OtherError ''ServerNotFoundError''))\<rparr>"

text \<open>
  A service whose check finds nothing and whose insert is cut by a transport error.
\<close>

definition broken_insert_env :: "nat env" where
  "broken_insert_env =
     \<lparr>urlparse_error = cpython_urlparse_error,
      youtube = (\<lambda>h c. case c of
                   SubscriptionsInsert channel_id \<Rightarrow> Inl (OtherError ''TimeoutError'')
                 | _ \<Rightarrow> Inr [])\<rparr>"

section \<open>Facts about the string operations\<close>

declare py_split.simps(2) [simp del]

lemma py_in_iff_sublist: "py_in sub s \<longleftrightarrow> sublist sub s"
  by (induction s) (auto simp: sublist_Cons_right)

lemma py_in_char: "py_in [q] s \<longleftrightarrow> q \<in> set s"
  by (induction s) auto

lemma py_split_nonempty: "py_split sep s \<noteq> []"
  by (induction sep s rule: py_split.induct)
     (auto simp: py_split.simps(2) split: list.splits)

lemma py_split_match:
  "sep \<noteq> [] \<Longrightarrow> prefix sep (c # cs) \<Longrightarrow>
   py_split sep (c # cs) = [] # py_split sep (drop (length sep) (c # cs))"
  by (subst py_split.simps(2)) simp

lemma py_split_nomatch:
  "\<not> prefix sep (c # cs) \<Longrightarrow> py_split sep cs = p # ps \<Longrightarrow>
   py_split sep (c # cs) = (c # p) # ps"
  by (subst py_split.simps(2)) simp

lemma py_split_cases:
  obtains (match) "sep \<noteq> []" "prefix sep (c # cs)"
      "py_split sep (c # cs) = [] # py_split sep (drop (length sep) (c # cs))"
  | (nomatch) p ps where "sep = [] \<or> \<not> prefix sep (c # cs)" "py_split sep cs = p # ps"
      "py_split sep (c # cs) = (c # p) # ps"
proof (cases "sep \<noteq> [] \<and> prefix sep (c # cs)")
  case True
  then show ?thesis using match py_split_match by blast
next
  case False
  obtain p ps where sp: "py_split sep cs = p # ps"
    using py_split_nonempty [of sep cs] by (cases "py_split sep cs") auto
  have "py_split sep (c # cs) = (c # p) # ps"
    using False sp by (subst py_split.simps(2)) simp
  with False sp show ?thesis using nomatch by blast
qed

lemma py_split_absent: "\<not> py_in sep s \<Longrightarrow> py_split sep s = [s]"
proof (induction s)
  case Nil
  show ?case by simp
next
  case (Cons c cs)
  then have "\<not> prefix sep (c # cs)" "py_split sep cs = [cs]" by simp_all
  then show ?case by (rule py_split_nomatch)
qed

lemma py_split_single:
  "sep \<noteq> [] \<Longrightarrow> py_split sep s = [p] \<Longrightarrow> p = s \<and> \<not> py_in sep s"
proof (induction s arbitrary: p)
  case Nil
  then show ?case by simp
next
  case (Cons c cs)
  show ?case
  proof (cases rule: py_split_cases [of sep c cs])
    case match
    with Cons.prems show ?thesis by (simp add: py_split_nonempty)
  next
    case (nomatch q qs)
    with Cons.prems have "p = c # q" "qs = []" "\<not> prefix sep (c # cs)" by auto
    with nomatch Cons.IH [of q] Cons.prems(1) show ?thesis by simp
  qed
qed

text \<open>The last piece of a split holds no occurrence of the separator.\<close>

lemma last_split_free: "sep \<noteq> [] \<Longrightarrow> \<not> py_in sep (last (py_split sep s))"
proof (induction s rule: length_induct)
  case (1 s)
  show ?case
  proof (cases s)
    case Nil
    with 1(2) show ?thesis by simp
  next
    case (Cons c cs)
    show ?thesis
    proof (cases rule: py_split_cases [of sep c cs])
      case match
      have "length (drop (length sep) (c # cs)) < length s"
        using Cons 1(2) by simp
      with 1 have "\<not> py_in sep (last (py_split sep (drop (length sep) (c # cs))))"
        by blast
      with match Cons show ?thesis by (simp add: py_split_nonempty)
    next
      case (nomatch p ps)
      with 1(2) have np: "\<not> prefix sep (c # cs)" by simp
      show ?thesis
      proof (cases ps)
        case Nil
        with nomatch 1(2) have "p = cs" "\<not> py_in sep cs"
          using py_split_single [of sep cs p] by auto
        with np nomatch Nil Cons show ?thesis by simp
      next
        case (Cons q qs)
        have "\<not> py_in sep (last (py_split sep cs))"
          using 1 \<open>s = c # cs\<close> by simp
        with nomatch Cons \<open>s = c # cs\<close> show ?thesis by simp
      qed
    qed
  qed
qed

text \<open>When the separator occurs, the last piece is what follows an occurrence of it.\<close>

lemma last_split_suffix:
  "sep \<noteq> [] \<Longrightarrow> py_in sep s \<Longrightarrow> \<exists>pre. s = pre @ sep @ last (py_split sep s)"
proof (induction s rule: length_induct)
  case (1 s)
  show ?case
  proof (cases s)
    case Nil
    with 1 show ?thesis by simp
  next
    case (Cons c cs)
    show ?thesis
    proof (cases rule: py_split_cases [of sep c cs])
      case match
      define rest where "rest = drop (length sep) (c # cs)"
      have s: "s = sep @ rest"
        using match(2) Cons by (auto simp: rest_def prefix_def)
      have l: "last (py_split sep s) = last (py_split sep rest)"
        using match(3) Cons by (simp add: rest_def py_split_nonempty)
      have len: "length rest < length s" using s 1(2) by simp
      show ?thesis
      proof (cases "py_in sep rest")
        case True
        with 1(1,2) len obtain pre where "rest = pre @ sep @ last (py_split sep rest)"
          by blast
        with s l have "s = (sep @ pre) @ sep @ last (py_split sep s)" by simp
        then show ?thesis by blast
      next
        case False
        then have "py_split sep rest = [rest]" by (rule py_split_absent)
        with s l have "s = [] @ sep @ last (py_split sep s)" by simp
        then show ?thesis by blast
      qed
    next
      case (nomatch p ps)
      with 1(2) have np: "\<not> prefix sep (c # cs)" by simp
      with 1(3) Cons have in_cs: "py_in sep cs" by simp
      with 1(1,2) Cons obtain pre where pre: "cs = pre @ sep @ last (py_split sep cs)"
        by auto
      have "ps \<noteq> []"
        using nomatch(2) in_cs py_split_single [OF 1(2), of cs p] by auto
      with nomatch Cons have "last (py_split sep s) = last (py_split sep cs)" by simp
      with pre Cons have "s = (c # pre) @ sep @ last (py_split sep s)" by simp
      then show ?thesis by blast
    qed
  qed
qed

text \<open>The first piece of a split at one character stops before its first occurrence.\<close>

lemma hd_split_char: "hd (py_split [q] s) = takeWhile (\<lambda>x. x \<noteq> q) s"
proof (induction s)
  case Nil
  show ?case by simp
next
  case (Cons c cs)
  show ?case
  proof (cases rule: py_split_cases [of "[q]" c cs])
    case match
    then show ?thesis by simp
  next
    case (nomatch p ps)
    with Cons show ?thesis by simp
  qed
qed

text \<open>
  What \<open>s.split(sep)[-1].split("?")[0]\<close> is when \<open>sep\<close> occurs in \<open>s\<close>: the text after
  the last occurrence of \<open>sep\<close>, up to the first question mark there or the end.
\<close>

lemma segment_after_last:
  assumes "sep \<noteq> []" and "py_in sep s"
  shows "\<exists>pre post. s = pre @ sep @ hd (py_split ''?'' (last (py_split sep s))) @ post \<and>
           \<not> py_in sep (hd (py_split ''?'' (last (py_split sep s))) @ post) \<and>
           CHR ''?'' \<notin> set (hd (py_split ''?'' (last (py_split sep s)))) \<and>
           (post = [] \<or> hd post = CHR ''?'')"
proof -
  define l where "l = last (py_split sep s)"
  define r where "r = takeWhile (\<lambda>x. x \<noteq> CHR ''?'') l"
  define post where "post = dropWhile (\<lambda>x. x \<noteq> CHR ''?'') l"
  from assms obtain pre where "s = pre @ sep @ l"
    unfolding l_def using last_split_suffix by blast
  moreover have "l = r @ post" by (simp add: r_def post_def)
  moreover have "\<not> py_in sep l" unfolding l_def using assms(1) by (rule last_split_free)
  moreover have "CHR ''?'' \<notin> set r"
    unfolding r_def by (auto dest: set_takeWhileD)
  moreover have "post = [] \<or> hd post = CHR ''?''"
    unfolding post_def using hd_dropWhile [of "\<lambda>x. x \<noteq> CHR ''?''" l] by auto
  moreover have "hd (py_split ''?'' l) = r" by (simp add: r_def hd_split_char)
  ultimately show ?thesis unfolding l_def by metis
qed

section \<open>The success rate\<close>

text \<open>
  Claim C1. A run over an empty list should end without raising, its rate 0 or N/A; with 3
  successes and 1 failure the rate is 75.0. The program divides without a test: on the
  empty list the loop ends with both counters at 0 and line 209 raises
  \<open>ZeroDivisionError\<close>. With 3 successes and 1 failure the rate is 75.
\<close>

theorem bulk_subscribe_empty_raises:
  "bulk_subscribe env [] delay h = (Inl ZeroDivisionError, initial_state h) \<and>
   success_rate 3 1 = Inr 75"
  by (simp add: bulk_subscribe_def success_rate_def initial_state_def)

section \<open>Resolution\<close>

text \<open>
  Claim C5. A reference that holds none of \<open>channel/\<close>, \<open>c/\<close>, \<open>@\<close> and \<open>user/\<close> is
  not resolved: \<open>extract_channel_id\<close> raises \<open>ValueError\<close> and makes no request (the
  history is the one it started from). The message is the one of line 83 unless the URL
  parser has raised its own \<open>ValueError\<close> before.
\<close>

theorem extract_unknown_scheme:
  assumes "\<not> py_in ''channel/'' url" and "\<not> py_in ''c/'' url"
    and "\<not> py_in ''@'' url" and "\<not> py_in ''user/'' url"
  shows "\<exists>msg. extract_channel_id env url h = (Inl (ValueError msg), h) \<and>
           (urlparse_error env url = None \<longrightarrow>
              msg = ''Unable to parse channel URL: '' @ url)"
  using assms by (simp add: extract_channel_id_def split: option.split)

theorem extract_unknown_scheme_witness:
  "\<not> py_in ''channel/'' ''not-a-url'' \<and> \<not> py_in ''c/'' ''not-a-url'' \<and>
   \<not> py_in ''@'' ''not-a-url'' \<and> \<not> py_in ''user/'' ''not-a-url'' \<and>
   extract_channel_id stale_env ''not-a-url'' [] =
     (Inl (ValueError ''Unable to parse channel URL: not-a-url''), [])"
proof -
  have a: "\<not> py_in ''channel/'' ''not-a-url''" by simp
  have b: "\<not> py_in ''c/'' ''not-a-url''" by simp
  have c: "\<not> py_in ''@'' ''not-a-url''" by simp
  have d: "\<not> py_in ''user/'' ''not-a-url''" by simp
  have e: "urlparse_error stale_env ''not-a-url'' = None"
    by (simp add: stale_env_def cpython_urlparse_error_def netloc_def after_scheme_def)
  show ?thesis
    using a b c d e extract_unknown_scheme [OF a b c d, of stale_env "[]"] by auto
qed

lemma resolve_custom_url_history:
  "snd (resolve_custom_url env url h) = h @ [Call (SearchList (search_query url))]"
  by (simp add: resolve_custom_url_def execute_def split: sum.split list.split)

text \<open>
  Claim C3, as the program has it. For a reference that holds \<open>channel/\<close> and that the URL
  parser accepts, \<open>extract_channel_id\<close> makes no request and returns the text between the
  last \<open>channel/\<close> and the first question mark after it, or the end of the string when
  none follows.
\<close>

theorem extract_direct_channel:
  assumes "py_in ''channel/'' url" and "urlparse_error env url = None"
  shows "\<exists>ident pre post.
           extract_channel_id env url h = (Inr ident, h) \<and>
           url = pre @ ''channel/'' @ ident @ post \<and>
           \<not> py_in ''channel/'' (ident @ post) \<and>
           CHR ''?'' \<notin> set ident \<and>
           (post = [] \<or> hd post = CHR ''?'')"
proof -
  have "extract_channel_id env url h =
          (Inr (hd (py_split ''?'' (last (py_split ''channel/'' url)))), h)"
    using assms by (simp add: extract_channel_id_def)
  moreover have "''channel/'' \<noteq> []" by simp
  ultimately show ?thesis
    using segment_after_last [of "''channel/''" url] assms(1) by metis
qed

theorem extract_direct_channel_witness:
  "py_in ''channel/'' ''https://www.youtube.com/channel/UCabc123?x=1'' \<and>
   urlparse_error stale_env ''https://www.youtube.com/channel/UCabc123?x=1'' = None \<and>
   extract_channel_id stale_env ''https://www.youtube.com/channel/UCabc123?x=1'' [] =
     (Inr ''UCabc123'', [])"
proof -
  have a: "py_in ''channel/'' ''https://www.youtube.com/channel/UCabc123?x=1''"
    by code_simp
  have b: "urlparse_error stale_env ''https://www.youtube.com/channel/UCabc123?x=1'' = None"
    by code_simp
  have c: "extract_channel_id stale_env ''https://www.youtube.com/channel/UCabc123?x=1'' [] =
     (Inr ''UCabc123'', [])"
    by code_simp
  show ?thesis
    using a b c extract_direct_channel [OF a b, of "[]"] by simp
qed

text \<open>
  Claim C3 as it is written fails on a reference that holds \<open>channel/\<close> and that
  \<open>urlparse\<close> refuses: here the host has an opening square bracket and no closing one,
  line 68 raises \<open>ValueError\<close> and no identifier is returned.
\<close>

theorem extract_direct_channel_counterexample:
  "py_in ''channel/'' ''https://[youtube.com/channel/UCabc'' \<and>
   extract_channel_id stale_env ''https://[youtube.com/channel/UCabc'' [] =
     (Inl (ValueError ''Invalid IPv6 URL''), [])"
  by code_simp

text \<open>
  Claim C4. For a reference that holds \<open>@\<close>, the query of the channel search is \<open>@\<close>
  followed by the text after the last \<open>@\<close>, up to the first question mark there or the
  end of the string. \<open>resolve_custom_url\<close> makes that one request; \<open>extract_channel_id\<close>
  makes it too, unless the reference also holds \<open>channel/\<close> or the URL parser refuses it,
  and then it makes no request at all.
\<close>

theorem handle_search_query:
  assumes "py_in ''@'' url"
  shows "\<exists>handle pre post.
           url = pre @ ''@'' @ handle @ post \<and>
           CHR ''@'' \<notin> set (handle @ post) \<and>
           CHR ''?'' \<notin> set handle \<and>
           (post = [] \<or> hd post = CHR ''?'') \<and>
           snd (resolve_custom_url env url h) = h @ [Call (SearchList (''@'' @ handle))] \<and>
           snd (extract_channel_id env url h) =
             (if urlparse_error env url = None \<and> \<not> py_in ''channel/'' url
              then h @ [Call (SearchList (''@'' @ handle))] else h)"
proof -
  define handle where "handle = hd (py_split ''?'' (last (py_split ''@'' url)))"
  have q: "search_query url = ''@'' @ handle"
    using assms by (simp add: search_query_def handle_def)
  obtain pre post where seg: "url = pre @ ''@'' @ handle @ post"
      "\<not> py_in ''@'' (handle @ post)" "CHR ''?'' \<notin> set handle"
      "post = [] \<or> hd post = CHR ''?''"
    using segment_after_last [of "''@''" url] assms unfolding handle_def by blast
  from seg(2) have free: "CHR ''@'' \<notin> set (handle @ post)"
    by (simp add: py_in_char)
  have r: "snd (resolve_custom_url env url h) = h @ [Call (SearchList (''@'' @ handle))]"
    by (simp only: resolve_custom_url_history q)
  have e: "snd (extract_channel_id env url h) =
             (if urlparse_error env url = None \<and> \<not> py_in ''channel/'' url
              then h @ [Call (SearchList (''@'' @ handle))] else h)"
    using assms r by (auto simp: extract_channel_id_def split: option.split)
  from seg(1) free seg(3,4) r e show ?thesis by blast
qed

theorem handle_search_query_witness:
  "py_in ''@'' ''https://www.youtube.com/@someuser?x=1'' \<and>
   snd (extract_channel_id stale_env ''https://www.youtube.com/@someuser?x=1'' []) =
     [Call (SearchList ''@someuser'')]"
proof -
  have a: "py_in ''@'' ''https://www.youtube.com/@someuser?x=1''" by code_simp
  have c: "snd (extract_channel_id stale_env ''https://www.youtube.com/@someuser?x=1'' []) =
     [Call (SearchList ''@someuser'')]" by code_simp
  show ?thesis
    using a c handle_search_query [OF a, of stale_env "[]"] by simp
qed

section \<open>Subscription: the check and the insert\<close>

lemma create_subscription_history:
  "snd (create_subscription env cid h) = h @ [Call (SubscriptionsInsert cid)]"
  by (simp add: create_subscription_def execute_def split: sum.split option.split)

text \<open>
  Claim C6, as the program has it. When the check for an existing subscription raises an
  \<open>HttpError\<close>, the error is dropped and the insert request is issued next: the outcome is
  the one of the insert, and the history holds the check followed by the insert. When the
  check raises any other exception, that exception leaves the function, and the history
  holds the check alone: no insert is issued.
\<close>

theorem check_error_handling:
  "(youtube env h (SubscriptionsList cid) = Inl (HttpError e) \<longrightarrow>
      subscribe_outcome env cid h =
        create_subscription env cid (h @ [Call (SubscriptionsList cid)]) \<and>
      snd (subscribe_outcome env cid h) =
        h @ [Call (SubscriptionsList cid), Call (SubscriptionsInsert cid)]) \<and>
   (youtube env h (SubscriptionsList cid) = Inl ex \<and> http_error_of ex = None \<longrightarrow>
      subscribe_outcome env cid h = (Inl ex, h @ [Call (SubscriptionsList cid)]))"
  by (simp add: subscribe_outcome_def execute_def create_subscription_history)

theorem check_error_handling_witness:
  "youtube quota_env [] (SubscriptionsList ''UC1'') = Inl (HttpError quota_error) \<and>
   subscribe_outcome quota_env ''UC1'' [] =
     (Inr Created, [Call (SubscriptionsList ''UC1''), Call (SubscriptionsInsert ''UC1'')]) \<and>
   youtube offline_env [] (SubscriptionsList ''UC2'') = Inl (OtherError ''ServerNotFoundError'') \<and>
   http_error_of (OtherError ''ServerNotFoundError'') = None \<and>
   subscribe_outcome offline_env ''UC2'' [] =
     (Inl (OtherError ''ServerNotFoundError''), [] @ [Call (SubscriptionsList ''UC2'')])"
proof -
  have a: "youtube quota_env [] (SubscriptionsList ''UC1'') = Inl (HttpError quota_error)"
    by (simp add: quota_env_def quota_youtube_def)
  have b: "create_subscription quota_env ''UC1'' ([] @ [Call (SubscriptionsList ''UC1'')]) =
     (Inr Created, [Call (SubscriptionsList ''UC1''), Call (SubscriptionsInsert ''UC1'')])"
    by (simp add: create_subscription_def execute_def quota_env_def quota_youtube_def)
  have c: "youtube offline_env [] (SubscriptionsList ''UC2'') =
      Inl (OtherError ''ServerNotFoundError'')"
    by (simp add: offline_env_def)
  have d: "http_error_of (OtherError ''ServerNotFoundError'') = None" by simp
  have "subscribe_outcome quota_env ''UC1'' [] =
      create_subscription quota_env ''UC1'' ([] @ [Call (SubscriptionsList ''UC1'')])"
    using check_error_handling [of quota_env "[]" "''UC1''" quota_error] a by blast
  then have e: "subscribe_outcome quota_env ''UC1'' [] =
     (Inr Created, [Call (SubscriptionsList ''UC1''), Call (SubscriptionsInsert ''UC1'')])"
    by (simp only: b)
  have f: "subscribe_outcome offline_env ''UC2'' [] =
     (Inl (OtherError ''ServerNotFoundError''), [] @ [Call (SubscriptionsList ''UC2'')])"
    using check_error_handling [of offline_env "[]" "''UC2''" _
        "OtherError ''ServerNotFoundError''"] c d by blast
  from a e c d f show ?thesis by blast
qed

text \<open>
  Claim C6 as it is written, for every kind of error of the check, fails: a check that
  raises anything but an \<open>HttpError\<close> (here the service cannot be reached) leaves
  \<open>subscribe_to_channel\<close> with that exception, and no insert is issued.
\<close>

theorem check_other_error_counterexample:
  "youtube offline_env [] (SubscriptionsList ''UC1'') =
     Inl (OtherError ''ServerNotFoundError'') \<and>
   subscribe_outcome offline_env ''UC1'' [] =
     (Inl (OtherError ''ServerNotFoundError''), [Call (SubscriptionsList ''UC1'')])"
  by (simp add: subscribe_outcome_def execute_def offline_env_def)

lemma subscribe_outcome_reaches_create:
  assumes "youtube env h (SubscriptionsList cid) = Inr [] \<or>
           (\<exists>e'. youtube env h (SubscriptionsList cid) = Inl (HttpError e'))"
  shows "subscribe_outcome env cid h =
           create_subscription env cid (h @ [Call (SubscriptionsList cid)])"
  using assms by (auto simp: subscribe_outcome_def execute_def)

text \<open>
  Claim C7, as the program has it. When the check finds nothing or raises an \<open>HttpError\<close>,
  and the insert raises an \<open>HttpError\<close> whose body gives a reason: the outcome is
  \<open>AlreadySubscribed\<close> for the reason \<open>subscriptionDuplicate\<close> and \<open>Failed\<close> with that
  error for every other reason. An insert that raises any other exception is no outcome:
  the exception leaves the function, to the handler of the bulk run.
\<close>

theorem creation_failure_outcome:
  assumes "youtube env h (SubscriptionsList cid) = Inr [] \<or>
           (\<exists>e'. youtube env h (SubscriptionsList cid) = Inl (HttpError e'))"
  shows "(\<forall>e reason.
            youtube env (h @ [Call (SubscriptionsList cid)]) (SubscriptionsInsert cid) =
              Inl (HttpError e) \<and> error_reason e = Inr reason \<longrightarrow>
            fst (subscribe_outcome env cid h) =
              Inr (if reason = JStr ''subscriptionDuplicate''
                   then AlreadySubscribed else Failed e)) \<and>
         (\<forall>ex.
            youtube env (h @ [Call (SubscriptionsList cid)]) (SubscriptionsInsert cid) =
              Inl ex \<and> http_error_of ex = None \<longrightarrow>
            fst (subscribe_outcome env cid h) = Inl ex)"
  by (simp add: subscribe_outcome_reaches_create [OF assms]
        create_subscription_def execute_def)

theorem creation_failure_outcome_witness:
  "youtube stale_env [Call (SubscriptionsInsert ''UC1'')] (SubscriptionsList ''UC1'') = Inr [] \<and>
   youtube stale_env [Call (SubscriptionsInsert ''UC1''), Call (SubscriptionsList ''UC1'')]
     (SubscriptionsInsert ''UC1'') = Inl (HttpError duplicate_error) \<and>
   error_reason duplicate_error = Inr (JStr ''subscriptionDuplicate'') \<and>
   fst (subscribe_outcome stale_env ''UC1'' [Call (SubscriptionsInsert ''UC1'')]) =
     Inr AlreadySubscribed \<and>
   youtube quota_env [Call (SubscriptionsInsert ''UC1'')] (SubscriptionsList ''UC1'') =
     Inl (HttpError quota_error) \<and>
   youtube quota_env [Call (SubscriptionsInsert ''UC1''), Call (SubscriptionsList ''UC1'')]
     (SubscriptionsInsert ''UC1'') = Inl (HttpError quota_error) \<and>
   error_reason quota_error = Inr (JStr ''quotaExceeded'') \<and>
   fst (subscribe_outcome quota_env ''UC1'' [Call (SubscriptionsInsert ''UC1'')]) =
     Inr (Failed quota_error)"
proof -
  let ?h = "[Call (SubscriptionsInsert ''UC1'')] :: nat event list"
  have a: "youtube stale_env ?h (SubscriptionsList ''UC1'') = Inr []"
    by (simp add: stale_env_def stale_youtube_def)
  have b: "youtube stale_env (?h @ [Call (SubscriptionsList ''UC1'')])
     (SubscriptionsInsert ''UC1'') = Inl (HttpError duplicate_error)"
    by (simp add: stale_env_def stale_youtube_def)
  have c: "error_reason duplicate_error = Inr (JStr ''subscriptionDuplicate'')"
    by (simp add: error_reason_def duplicate_error_def)
  have a': "youtube quota_env ?h (SubscriptionsList ''UC1'') = Inl (HttpError quota_error)"
    by (simp add: quota_env_def quota_youtube_def)
  have b': "youtube quota_env (?h @ [Call (SubscriptionsList ''UC1'')])
     (SubscriptionsInsert ''UC1'') = Inl (HttpError quota_error)"
    by (simp add: quota_env_def quota_youtube_def)
  have c': "error_reason quota_error = Inr (JStr ''quotaExceeded'')"
    by (simp add: error_reason_def quota_error_def)
  have d: "fst (subscribe_outcome stale_env ''UC1'' ?h) = Inr AlreadySubscribed"
    using creation_failure_outcome [of stale_env ?h "''UC1''"] a b c by simp
  have d': "fst (subscribe_outcome quota_env ''UC1'' ?h) = Inr (Failed quota_error)"
    using creation_failure_outcome [of quota_env ?h "''UC1''"] a' b' c' by simp
  from a b c d a' b' c' d' show ?thesis by simp
qed

text \<open>
  Claim C7 as it is written, every other creation failure yields \<open>Failed\<close>, fails: an
  insert cut by a transport error is a creation failure and the function raises.
\<close>

theorem creation_other_error_counterexample:
  "youtube broken_insert_env [Call (SubscriptionsList ''UC1'')] (SubscriptionsInsert ''UC1'') =
     Inl (OtherError ''TimeoutError'') \<and>
   subscribe_outcome broken_insert_env ''UC1'' [] =
     (Inl (OtherError ''TimeoutError''),
      [Call (SubscriptionsList ''UC1''), Call (SubscriptionsInsert ''UC1'')])"
  by (simp add: subscribe_outcome_def create_subscription_def execute_def
        broken_insert_env_def)

section \<open>Subscribing twice\<close>

lemma known_subscribed_append:
  "known_subscribed env cid h \<Longrightarrow> known_subscribed env cid (h @ later)"
  unfolding known_subscribed_def by (metis append_Cons append_assoc)

lemma known_subscribed_snoc:
  "confirmed_by env cid h ev \<Longrightarrow> known_subscribed env cid (h @ [ev])"
  unfolding known_subscribed_def by blast

lemma create_success_known:
  assumes "create_subscription env cid h = (Inr out, h1)" and "succeeded out"
  shows "known_subscribed env cid h1"
proof -
  have h1: "h1 = h @ [Call (SubscriptionsInsert cid)]"
    using assms(1) create_subscription_history [of env cid h] by simp
  have "confirmed_by env cid h (Call (SubscriptionsInsert cid))"
    using assms
    by (auto simp: create_subscription_def execute_def confirmed_by_def
          split: sum.splits option.splits if_splits)
  then show ?thesis unfolding h1 by (rule known_subscribed_snoc)
qed

lemma subscribe_success_known:
  assumes "subscribe_outcome env cid h = (Inr out, h1)" and "succeeded out"
  shows "known_subscribed env cid h1"
proof (cases "youtube env h (SubscriptionsList cid)")
  case (Inl ex)
  with assms(1) have "create_subscription env cid (h @ [Call (SubscriptionsList cid)]) =
      (Inr out, h1)"
    by (auto simp: subscribe_outcome_def execute_def split: option.splits)
  then show ?thesis using assms(2) by (rule create_success_known)
next
  case (Inr items)
  show ?thesis
  proof (cases "items = []")
    case True
    with Inr assms(1) have "create_subscription env cid (h @ [Call (SubscriptionsList cid)]) =
        (Inr out, h1)"
      by (simp add: subscribe_outcome_def execute_def)
    then show ?thesis using assms(2) by (rule create_success_known)
  next
    case False
    with Inr assms(1) have h1: "h1 = h @ [Call (SubscriptionsList cid)]"
      by (simp add: subscribe_outcome_def execute_def)
    have "confirmed_by env cid h (Call (SubscriptionsList cid))"
      using Inr False by (simp add: confirmed_by_def)
    then show ?thesis unfolding h1 by (rule known_subscribed_snoc)
  qed
qed

lemma create_when_known:
  assumes "reports_duplicate env cid" and "known_subscribed env cid h"
  shows "fst (create_subscription env cid h) = Inr AlreadySubscribed"
  using assms unfolding reports_duplicate_def
  by (fastforce simp: create_subscription_def execute_def split: sum.splits option.splits)

lemma subscribe_when_known:
  assumes "reports_duplicate env cid" and "known_subscribed env cid h"
  shows "fst (subscribe_outcome env cid h) = Inr AlreadySubscribed"
proof -
  have k: "known_subscribed env cid (h @ [Call (SubscriptionsList cid)])"
    using assms(2) by (rule known_subscribed_append)
  have c: "fst (create_subscription env cid (h @ [Call (SubscriptionsList cid)])) =
      Inr AlreadySubscribed"
    using assms(1) k by (rule create_when_known)
  have "case youtube env h (SubscriptionsList cid) of
           Inr items \<Rightarrow> True
         | Inl ex \<Rightarrow> http_error_of ex \<noteq> None"
    using assms unfolding reports_duplicate_def by blast
  with c show ?thesis
    by (auto simp: subscribe_outcome_def execute_def split: sum.splits option.splits)
qed

lemma failed_not_duplicate:
  assumes "subscribe_outcome env cid h = (Inr (Failed e), h1)"
  shows "error_reason e \<noteq> Inr (JStr ''subscriptionDuplicate'')"
  using assms
  by (auto simp: subscribe_outcome_def create_subscription_def execute_def
        split: sum.splits option.splits if_splits exc.splits)

text \<open>
  Claim C8, as the program has it. With a service that reports duplicates for the channel:
  after a call of subscribe that succeeded (\<open>Created\<close> or \<open>AlreadySubscribed\<close>), the next
  call yields \<open>AlreadySubscribed\<close>, through the check or, when the check is stale or
  fails, through the duplicate refusal of the insert; so two calls never yield \<open>Created\<close>
  twice. With any service, no call yields \<open>Failed\<close> for an error whose reason is the
  duplicate.
\<close>

theorem subscribe_twice:
  "(reports_duplicate env cid \<and> subscribe_outcome env cid h = (Inr out, h1) \<and>
      succeeded out \<longrightarrow>
      fst (subscribe_outcome env cid h1) = Inr AlreadySubscribed) \<and>
   (subscribe_outcome env cid h = (Inr (Failed e), h2) \<longrightarrow>
      error_reason e \<noteq> Inr (JStr ''subscriptionDuplicate''))"
  using subscribe_success_known subscribe_when_known failed_not_duplicate by blast

text \<open>The service with the stale check reports duplicates.\<close>

lemma stale_env_reports_duplicate: "reports_duplicate stale_env cid"
proof -
  have "Call (SubscriptionsInsert cid) \<in> set h" if "known_subscribed stale_env cid h" for h
    using that
    by (auto simp: known_subscribed_def confirmed_by_def stale_env_def stale_youtube_def)
  moreover have "error_reason duplicate_error = Inr (JStr ''subscriptionDuplicate'')"
    by (simp add: error_reason_def duplicate_error_def)
  ultimately show ?thesis
    by (auto simp: reports_duplicate_def stale_env_def stale_youtube_def)
qed

theorem subscribe_twice_witness:
  "reports_duplicate stale_env ''UC1'' \<and>
   subscribe_outcome stale_env ''UC1'' [] =
     (Inr Created, [Call (SubscriptionsList ''UC1''), Call (SubscriptionsInsert ''UC1'')]) \<and>
   succeeded Created \<and>
   fst (subscribe_outcome stale_env ''UC1''
          [Call (SubscriptionsList ''UC1''), Call (SubscriptionsInsert ''UC1'')]) =
     Inr AlreadySubscribed \<and>
   subscribe_outcome quota_env ''UC1'' [Call (SubscriptionsInsert ''UC1'')] =
     (Inr (Failed quota_error),
      [Call (SubscriptionsInsert ''UC1''), Call (SubscriptionsList ''UC1''),
       Call (SubscriptionsInsert ''UC1'')]) \<and>
   error_reason quota_error \<noteq> Inr (JStr ''subscriptionDuplicate'')"
proof -
  let ?h1 = "[Call (SubscriptionsList ''UC1''), Call (SubscriptionsInsert ''UC1'')]
               :: nat event list"
  let ?h2 = "[Call (SubscriptionsInsert ''UC1''), Call (SubscriptionsList ''UC1''),
       Call (SubscriptionsInsert ''UC1'')] :: nat event list"
  have a: "reports_duplicate stale_env ''UC1''" by (rule stale_env_reports_duplicate)
  have b: "subscribe_outcome stale_env ''UC1'' [] = (Inr Created, ?h1)"
    by (simp add: subscribe_outcome_def create_subscription_def execute_def
          stale_env_def stale_youtube_def)
  have c: "succeeded Created" by simp
  have d: "subscribe_outcome quota_env ''UC1'' [Call (SubscriptionsInsert ''UC1'')] =
     (Inr (Failed quota_error), ?h2)"
    by (simp add: subscribe_outcome_def create_subscription_def execute_def
          quota_env_def quota_youtube_def error_reason_def quota_error_def)
  show ?thesis
    using a b c d
      subscribe_twice [of stale_env "''UC1''" "[]" Created ?h1]
      subscribe_twice [of quota_env "''UC1''" "[Call (SubscriptionsInsert ''UC1'')]" _ _
         quota_error ?h2]
    by simp
qed

text \<open>
  Claim C8 as it is written, for whatever the service answers, fails: the first call is
  \<open>Created\<close>, then the quota is spent, the check of the second call raises an
  \<open>HttpError\<close> that is dropped, its insert is refused for the quota, and the second call
  is \<open>Failed\<close>, not \<open>AlreadySubscribed\<close>.
\<close>

theorem subscribe_twice_counterexample:
  "subscribe_outcome quota_env ''UC1'' [] =
     (Inr Created, [Call (SubscriptionsList ''UC1''), Call (SubscriptionsInsert ''UC1'')]) \<and>
   fst (subscribe_outcome quota_env ''UC1''
          [Call (SubscriptionsList ''UC1''), Call (SubscriptionsInsert ''UC1'')]) =
     Inr (Failed quota_error)"
  by (simp add: subscribe_outcome_def create_subscription_def execute_def
        quota_env_def quota_youtube_def error_reason_def quota_error_def)

section \<open>The bulk run: suspensions and counters\<close>

text \<open>No request adds a suspension to the history.\<close>

lemma sleeps_append: "sleeps (a @ b) = sleeps a @ sleeps b"
  by (induction a rule: sleeps.induct) simp_all

lemma execute_sleeps: "sleeps (snd (execute env c h)) = sleeps h"
  by (simp add: execute_def sleeps_append)

lemma resolve_custom_url_sleeps: "sleeps (snd (resolve_custom_url env url h)) = sleeps h"
  by (simp add: resolve_custom_url_history sleeps_append)

lemma get_channel_id_by_username_sleeps:
  "sleeps (snd (get_channel_id_by_username env username h)) = sleeps h"
  by (simp add: get_channel_id_by_username_def execute_def sleeps_append
        split: sum.split list.split)

lemma extract_channel_id_sleeps: "sleeps (snd (extract_channel_id env url h)) = sleeps h"
  by (simp add: extract_channel_id_def resolve_custom_url_sleeps
        get_channel_id_by_username_sleeps split: option.split)

lemma create_subscription_sleeps:
  "sleeps (snd (create_subscription env cid h)) = sleeps h"
  by (simp add: create_subscription_history sleeps_append)

lemma subscribe_outcome_sleeps: "sleeps (snd (subscribe_outcome env cid h)) = sleeps h"
  by (simp add: subscribe_outcome_def execute_def create_subscription_sleeps sleeps_append
        split: sum.split option.split)

lemma subscribe_to_channel_sleeps:
  "sleeps (snd (subscribe_to_channel env cid h)) = sleeps h"
  using subscribe_outcome_sleeps [of env cid h]
  by (auto simp: subscribe_to_channel_def split: prod.split sum.split)

lemma item_attempt_sleeps: "sleeps (snd (item_attempt env url h)) = sleeps h"
  using extract_channel_id_sleeps [of env "strip url" h]
  by (auto simp: item_attempt_def subscribe_to_channel_sleeps split: prod.split sum.split)

lemma process_item_sleeps:
  "sleeps (history (process_item env url st)) = sleeps (history st)"
  using item_attempt_sleeps [of env url "history st"]
  by (auto simp: process_item_def split: prod.split sum.split)

lemma process_item_counts:
  "(successful (process_item env url st) = successful st + 1 \<and>
    failed (process_item env url st) = failed st) \<or>
   (successful (process_item env url st) = successful st \<and>
    failed (process_item env url st) = failed st + 1)"
  by (auto simp: process_item_def split: prod.split sum.split)

lemma process_item_raises:
  assumes "fst (item_attempt env url (history st)) = Inl ex"
  shows "failed (process_item env url st) = failed st + 1 \<and>
         successful (process_item env url st) = successful st"
  using assms by (auto simp: process_item_def split: prod.split sum.split)

lemma rate_limit_counts:
  "successful (rate_limit d n i st) = successful st \<and>
   failed (rate_limit d n i st) = failed st"
  by (simp add: rate_limit_def)

text \<open>The loop over a list is the loop over its first part, then over the rest.\<close>

lemma bulk_loop_append:
  "bulk_loop env d n i (xs @ ys) st =
     bulk_loop env d n (i + length xs) ys (bulk_loop env d n i xs st)"
  by (induction xs arbitrary: i st) simp_all

lemma bulk_loop_counts:
  "successful (bulk_loop env d n i urls st) + failed (bulk_loop env d n i urls st) =
     successful st + failed st + length urls"
proof (induction urls arbitrary: i st)
  case Nil
  show ?case by simp
next
  case (Cons url rest)
  have "successful (rate_limit d n i (process_item env url st)) +
        failed (rate_limit d n i (process_item env url st)) =
          successful st + failed st + 1"
    using process_item_counts [of env url st] by (auto simp: rate_limit_counts)
  with Cons [of "Suc i" "rate_limit d n i (process_item env url st)"]
  show ?case by simp
qed

lemma bulk_loop_sleeps:
  "sleeps (history (bulk_loop env d n i urls st)) =
     sleeps (history st) @ replicate (min (length urls) (n - i)) d"
proof (induction urls arbitrary: i st)
  case Nil
  show ?case by simp
next
  case (Cons url rest)
  have step: "sleeps (history (rate_limit d n i (process_item env url st))) =
      sleeps (history st) @ (if i < n then [d] else [])"
    by (simp add: rate_limit_def sleeps_append process_item_sleeps)
  have "min (Suc (length rest)) (n - i) =
      (if i < n then Suc (min (length rest) (n - Suc i)) else 0)"
    by auto
  with Cons [of "Suc i" "rate_limit d n i (process_item env url st)"] step
  show ?case by (simp add: replicate_app_Cons_same)
qed

lemma success_rate_defined: "0 < s + f \<Longrightarrow> \<exists>rate. success_rate s f = Inr rate"
  by (simp add: success_rate_def)

section \<open>The bulk run: what a run guarantees\<close>

lemma snd_bulk_subscribe:
  "snd (bulk_subscribe env urls d h) =
     bulk_loop env d (length urls) 1 urls (initial_state h)"
  by (simp add: bulk_subscribe_def Let_def)

lemma fst_bulk_subscribe:
  "fst (bulk_subscribe env urls d h) =
     success_rate (successful (snd (bulk_subscribe env urls d h)))
       (failed (snd (bulk_subscribe env urls d h)))"
  by (simp add: bulk_subscribe_def Let_def)

text \<open>
  Claim C10. Every item adds one to exactly one of the two counters. At any point \<open>k\<close> the
  run is the loop over the first \<open>k\<close> references followed by the loop over the others,
  and after the first \<open>k\<close> references the counters sum to the number of items processed;
  at the end of the run, when the summary is printed, they sum to the number of references.
\<close>

theorem counters_sum_to_items:
  "((successful (process_item env url st) = successful st + 1 \<and>
     failed (process_item env url st) = failed st) \<or>
    (successful (process_item env url st) = successful st \<and>
     failed (process_item env url st) = failed st + 1)) \<and>
   snd (bulk_subscribe env urls d h) =
     bulk_loop env d (length urls) (1 + min k (length urls)) (drop k urls)
       (bulk_loop env d (length urls) 1 (take k urls) (initial_state h)) \<and>
   successful (bulk_loop env d (length urls) 1 (take k urls) (initial_state h)) +
     failed (bulk_loop env d (length urls) 1 (take k urls) (initial_state h)) =
       min k (length urls) \<and>
   successful (snd (bulk_subscribe env urls d h)) +
     failed (snd (bulk_subscribe env urls d h)) = length urls"
proof -
  have "bulk_loop env d (length urls) 1 (take k urls @ drop k urls) (initial_state h) =
     bulk_loop env d (length urls) (1 + min k (length urls)) (drop k urls)
       (bulk_loop env d (length urls) 1 (take k urls) (initial_state h))"
    by (simp only: bulk_loop_append length_take min.commute)
  then have split: "snd (bulk_subscribe env urls d h) =
     bulk_loop env d (length urls) (1 + min k (length urls)) (drop k urls)
       (bulk_loop env d (length urls) 1 (take k urls) (initial_state h))"
    by (simp add: snd_bulk_subscribe)
  have pre: "successful (bulk_loop env d (length urls) 1 (take k urls) (initial_state h)) +
     failed (bulk_loop env d (length urls) 1 (take k urls) (initial_state h)) =
       min k (length urls)"
    by (simp add: bulk_loop_counts initial_state_def min.commute)
  have all: "successful (snd (bulk_subscribe env urls d h)) +
     failed (snd (bulk_subscribe env urls d h)) = length urls"
    by (simp add: snd_bulk_subscribe bulk_loop_counts initial_state_def)
  from process_item_counts [of env url st] split pre all show ?thesis by blast
qed

text \<open>
  Claim C9. A run with delay \<open>d\<close> over \<open>N\<close> references adds \<open>N - 1\<close> suspensions to the
  history, each of duration \<open>d\<close> (none for the empty list). The run ends in the state the
  last item leaves, with no suspension after it; every item that is not the last is followed
  by one suspension, whatever its outcome was.
\<close>

theorem pacing:
  "sleeps (history (snd (bulk_subscribe env urls d h))) =
     sleeps h @ replicate (length urls - 1) d \<and>
   (urls \<noteq> [] \<longrightarrow>
      snd (bulk_subscribe env urls d h) =
        process_item env (last urls)
          (bulk_loop env d (length urls) 1 (butlast urls) (initial_state h))) \<and>
   (urls = pre @ url # post \<and> post \<noteq> [] \<longrightarrow>
      bulk_loop env d (length urls) 1 (pre @ [url]) (initial_state h) =
        (process_item env url (bulk_loop env d (length urls) 1 pre (initial_state h)))
          \<lparr>history :=
             history (process_item env url
               (bulk_loop env d (length urls) 1 pre (initial_state h))) @ [Sleep d]\<rparr>)"
proof -
  have a: "sleeps (history (snd (bulk_subscribe env urls d h))) =
     sleeps h @ replicate (length urls - 1) d"
    by (simp add: snd_bulk_subscribe bulk_loop_sleeps initial_state_def)
  have b: "snd (bulk_subscribe env urls d h) =
        process_item env (last urls)
          (bulk_loop env d (length urls) 1 (butlast urls) (initial_state h))"
    if "urls \<noteq> []"
  proof -
    have "bulk_loop env d (length urls) 1 (butlast urls @ [last urls]) (initial_state h) =
        process_item env (last urls)
          (bulk_loop env d (length urls) 1 (butlast urls) (initial_state h))"
      by (simp add: bulk_loop_append rate_limit_def)
    then have "bulk_loop env d (length urls) 1 urls (initial_state h) =
        process_item env (last urls)
          (bulk_loop env d (length urls) 1 (butlast urls) (initial_state h))"
      unfolding append_butlast_last_id [OF that] .
    then show ?thesis by (simp only: snd_bulk_subscribe)
  qed
  have c: "bulk_loop env d (length urls) 1 (pre @ [url]) (initial_state h) =
        (process_item env url (bulk_loop env d (length urls) 1 pre (initial_state h)))
          \<lparr>history :=
             history (process_item env url
               (bulk_loop env d (length urls) 1 pre (initial_state h))) @ [Sleep d]\<rparr>"
    if "urls = pre @ url # post" "post \<noteq> []"
    using that by (simp add: bulk_loop_append rate_limit_def)
  from a b c show ?thesis by blast
qed

text \<open>
  What an item does to the state is decided by its own attempt on the history it starts
  from: the counters it finds play no part.
\<close>

lemma process_item_eq:
  "process_item env url st =
     st\<lparr>successful := successful st +
            (if fst (item_attempt env url (history st)) = Inr True then 1 else 0),
        failed := failed st +
            (if fst (item_attempt env url (history st)) = Inr True then 0 else 1),
        history := snd (item_attempt env url (history st))\<rparr>"
  by (auto simp: process_item_def split: prod.split sum.split)

lemma process_item_shift:
  "process_item env url (st\<lparr>successful := a, failed := b\<rparr>) =
     (process_item env url st)
       \<lparr>successful := a + (successful (process_item env url st) - successful st),
        failed := b + (failed (process_item env url st) - failed st)\<rparr>"
  by (simp add: process_item_eq)

lemma rate_limit_shift:
  "rate_limit d n i (st\<lparr>successful := a, failed := b\<rparr>) =
     (rate_limit d n i st)\<lparr>successful := a, failed := b\<rparr>"
  by (simp add: rate_limit_def)

text \<open>
  The loop started with other counters makes the same requests and suspensions and adds
  the same numbers to the counters.
\<close>

lemma bulk_loop_shift:
  "history (bulk_loop env d n i urls (st\<lparr>successful := a, failed := b\<rparr>)) =
     history (bulk_loop env d n i urls st) \<and>
   successful (bulk_loop env d n i urls (st\<lparr>successful := a, failed := b\<rparr>)) +
     successful st = successful (bulk_loop env d n i urls st) + a \<and>
   failed (bulk_loop env d n i urls (st\<lparr>successful := a, failed := b\<rparr>)) +
     failed st = failed (bulk_loop env d n i urls st) + b"
proof (induction urls arbitrary: i st a b)
  case Nil
  show ?case by simp
next
  case (Cons url rest)
  let ?st1 = "rate_limit d n i (process_item env url st)"
  let ?a1 = "a + (successful (process_item env url st) - successful st)"
  let ?b1 = "b + (failed (process_item env url st) - failed st)"
  have step: "rate_limit d n i (process_item env url (st\<lparr>successful := a, failed := b\<rparr>)) =
      ?st1\<lparr>successful := ?a1, failed := ?b1\<rparr>"
    by (simp only: process_item_shift rate_limit_shift)
  have s: "successful ?st1 = successful (process_item env url st)"
          "failed ?st1 = failed (process_item env url st)"
    by (simp_all add: rate_limit_counts)
  have ge: "successful st \<le> successful (process_item env url st)"
           "failed st \<le> failed (process_item env url st)"
    using process_item_counts [of env url st] by auto
  let ?X = "bulk_loop env d n (Suc i) rest (?st1\<lparr>successful := ?a1, failed := ?b1\<rparr>)"
  let ?L = "bulk_loop env d n (Suc i) rest ?st1"
  have eq: "bulk_loop env d n i (url # rest) (st\<lparr>successful := a, failed := b\<rparr>) = ?X"
    by (simp only: bulk_loop.simps step)
  have eq0: "bulk_loop env d n i (url # rest) st = ?L" by simp
  note ih = Cons.IH [where i = "Suc i" and st = ?st1 and a = ?a1 and b = ?b1]
  from ih have h: "history ?X = history ?L" by blast
  from ih have "successful ?X + successful ?st1 = successful ?L + ?a1" by blast
  with s(1) ge(1) have sc: "successful ?X + successful st = successful ?L + a" by arith
  from ih have "failed ?X + failed ?st1 = failed ?L + ?b1" by blast
  with s(2) ge(2) have fc: "failed ?X + failed st = failed ?L + b" by arith
  from h sc fc show ?case unfolding eq eq0 by blast
qed

text \<open>
  Claim C2. When the resolution or the subscription of an item raises, whatever the
  exception, the handler of the item counts one failure and no success, the loop goes on
  over the references after it from the state the item left, every reference of the list
  ends in one of the two counters, and the run returns its rate: no exception of an item
  leaves the run. Every item of the list, the ones after a failure too, is attempted on the
  history the items before it left, and is counted by the result of its own attempt: a
  success when the attempt returns true, a failure otherwise. What the loop does over any
  references does not depend on the counters it starts with.
\<close>

theorem item_error_isolated:
  assumes "urls = pre @ url # post"
    and "st = bulk_loop env d (length urls) 1 pre (initial_state h)"
    and "fst (item_attempt env url (history st)) = Inl ex"
  shows "failed (process_item env url st) = failed st + 1 \<and>
         successful (process_item env url st) = successful st \<and>
         snd (bulk_subscribe env urls d h) =
           bulk_loop env d (length urls) (length pre + 2) post
             (rate_limit d (length urls) (length pre + 1) (process_item env url st)) \<and>
         successful (snd (bulk_subscribe env urls d h)) +
           failed (snd (bulk_subscribe env urls d h)) = length urls \<and>
         (\<exists>rate. fst (bulk_subscribe env urls d h) = Inr rate) \<and>
         (urls = pre' @ url' # post' \<and>
          st' = bulk_loop env d (length urls) 1 pre' (initial_state h) \<longrightarrow>
            bulk_loop env d (length urls) 1 (pre' @ [url']) (initial_state h) =
              rate_limit d (length urls) (length pre' + 1)
                (st'\<lparr>successful := successful st' +
                       (if fst (item_attempt env url' (history st')) = Inr True
                        then 1 else 0),
                     failed := failed st' +
                       (if fst (item_attempt env url' (history st')) = Inr True
                        then 0 else 1),
                     history := snd (item_attempt env url' (history st'))\<rparr>)) \<and>
         history (bulk_loop env d n i rest (st2\<lparr>successful := a, failed := b\<rparr>)) =
           history (bulk_loop env d n i rest st2) \<and>
         successful (bulk_loop env d n i rest (st2\<lparr>successful := a, failed := b\<rparr>)) +
           successful st2 = successful (bulk_loop env d n i rest st2) + a \<and>
         failed (bulk_loop env d n i rest (st2\<lparr>successful := a, failed := b\<rparr>)) +
           failed st2 = failed (bulk_loop env d n i rest st2) + b"
proof -
  have a: "failed (process_item env url st) = failed st + 1 \<and>
         successful (process_item env url st) = successful st"
    using assms(3) by (rule process_item_raises)
  have "bulk_loop env d (length urls) 1 (pre @ url # post) (initial_state h) =
           bulk_loop env d (length urls) (length pre + 2) post
             (rate_limit d (length urls) (length pre + 1) (process_item env url st))"
    by (simp add: bulk_loop_append assms(2))
  then have b: "snd (bulk_subscribe env urls d h) =
           bulk_loop env d (length urls) (length pre + 2) post
             (rate_limit d (length urls) (length pre + 1) (process_item env url st))"
    by (simp add: snd_bulk_subscribe assms(1))
  have c: "successful (snd (bulk_subscribe env urls d h)) +
           failed (snd (bulk_subscribe env urls d h)) = length urls"
    by (simp add: snd_bulk_subscribe bulk_loop_counts initial_state_def)
  have "0 < length urls" using assms(1) by simp
  with c have d: "\<exists>rate. fst (bulk_subscribe env urls d h) = Inr rate"
    by (simp add: fst_bulk_subscribe success_rate_def)
  have e: "bulk_loop env d (length urls) 1 (pre' @ [url']) (initial_state h) =
              rate_limit d (length urls) (length pre' + 1)
                (st'\<lparr>successful := successful st' +
                       (if fst (item_attempt env url' (history st')) = Inr True
                        then 1 else 0),
                     failed := failed st' +
                       (if fst (item_attempt env url' (history st')) = Inr True
                        then 0 else 1),
                     history := snd (item_attempt env url' (history st'))\<rparr>)"
    if "st' = bulk_loop env d (length urls) 1 pre' (initial_state h)"
  proof -
    have "bulk_loop env d (length urls) 1 (pre' @ [url']) (initial_state h) =
        rate_limit d (length urls) (length pre' + 1) (process_item env url' st')"
      by (simp add: bulk_loop_append that)
    then show ?thesis by (simp only: process_item_eq [of env url' st'])
  qed
  note f = bulk_loop_shift [where env = env and d = d and n = n and i = i and urls = rest
      and st = st2 and a = a and b = b]
  from a b c d e f show ?thesis by blast
qed


lemma successful_after_update:
  "successful (rate_limit d n i (st\<lparr>successful := a, failed := b, history := c\<rparr>)) = a"
  by (simp add: rate_limit_def)

theorem item_error_isolated_witness:
  "[''https://www.youtube.com/channel/UCabc123'', ''not-a-url'',
    ''https://www.youtube.com/@someuser''] =
     [''https://www.youtube.com/channel/UCabc123''] @ ''not-a-url'' #
     [''https://www.youtube.com/@someuser''] \<and>
   fst (item_attempt stale_env ''not-a-url''
          (history (bulk_loop stale_env 1 3 1 [''https://www.youtube.com/channel/UCabc123'']
             (initial_state [])))) =
     Inl (ValueError ''Unable to parse channel URL: not-a-url'') \<and>
   fst (bulk_subscribe stale_env
          [''https://www.youtube.com/channel/UCabc123'', ''not-a-url'',
           ''https://www.youtube.com/@someuser''] 1 []) = Inr (200 / 3) \<and>
   successful (snd (bulk_subscribe stale_env
          [''https://www.youtube.com/channel/UCabc123'', ''not-a-url'',
           ''https://www.youtube.com/@someuser''] 1 [])) +
   failed (snd (bulk_subscribe stale_env
          [''https://www.youtube.com/channel/UCabc123'', ''not-a-url'',
           ''https://www.youtube.com/@someuser''] 1 [])) = 3 \<and>
   [''https://www.youtube.com/channel/UCabc123'', ''not-a-url'',
    ''https://www.youtube.com/@someuser''] =
     [''https://www.youtube.com/channel/UCabc123'', ''not-a-url''] @
     ''https://www.youtube.com/@someuser'' # [] \<and>
   fst (item_attempt stale_env ''https://www.youtube.com/@someuser''
          (history (bulk_loop stale_env 1 3 1
             [''https://www.youtube.com/channel/UCabc123'', ''not-a-url'']
             (initial_state [])))) = Inr True \<and>
   successful (bulk_loop stale_env 1 3 1
       ([''https://www.youtube.com/channel/UCabc123'', ''not-a-url''] @
        [''https://www.youtube.com/@someuser'']) (initial_state [])) =
     successful (bulk_loop stale_env 1 3 1
       [''https://www.youtube.com/channel/UCabc123'', ''not-a-url'']
       (initial_state [])) + 1"
proof -
  let ?pre = "[''https://www.youtube.com/channel/UCabc123'']"
  let ?post = "[''https://www.youtube.com/@someuser'']"
  let ?pre' = "[''https://www.youtube.com/channel/UCabc123'', ''not-a-url'']"
  let ?url' = "''https://www.youtube.com/@someuser''"
  let ?urls = "[''https://www.youtube.com/channel/UCabc123'', ''not-a-url'',
    ''https://www.youtube.com/@someuser'']"
  let ?st = "bulk_loop stale_env 1 (length ?urls) 1 ?pre (initial_state [])"
  let ?st' = "bulk_loop stale_env 1 (length ?urls) 1 ?pre' (initial_state [])"
  have len: "length ?urls = 3" by simp
  have a: "?urls = ?pre @ ''not-a-url'' # ?post" by simp
  have b: "fst (item_attempt stale_env ''not-a-url'' (history ?st)) =
     Inl (ValueError ''Unable to parse channel URL: not-a-url'')"
    by code_simp
  have c: "fst (bulk_subscribe stale_env ?urls 1 []) = Inr (200 / 3)"
    by code_simp
  have g: "?urls = ?pre' @ ?url' # []" by simp
  have ok: "fst (item_attempt stale_env ?url' (history ?st')) = Inr True"
    by code_simp
  note inst = item_error_isolated [OF a refl b, where pre' = "?pre'" and url' = "?url'"
      and post' = "[]" and st' = "?st'"]
  from inst have d: "successful (snd (bulk_subscribe stale_env ?urls 1 [])) +
        failed (snd (bulk_subscribe stale_env ?urls 1 [])) = length ?urls"
    by blast
  from inst g have "bulk_loop stale_env 1 (length ?urls) 1 (?pre' @ [?url']) (initial_state []) =
      rate_limit 1 (length ?urls) (length ?pre' + 1)
        (?st'\<lparr>successful := successful ?st' +
               (if fst (item_attempt stale_env ?url' (history ?st')) = Inr True
                then 1 else 0),
             failed := failed ?st' +
               (if fst (item_attempt stale_env ?url' (history ?st')) = Inr True
                then 0 else 1),
             history := snd (item_attempt stale_env ?url' (history ?st'))\<rparr>)"
    by blast
  then have "successful (bulk_loop stale_env 1 (length ?urls) 1 (?pre' @ [?url'])
        (initial_state [])) =
      successful ?st' +
        (if fst (item_attempt stale_env ?url' (history ?st')) = Inr True then 1 else 0)"
    by (simp only: successful_after_update)
  then have e: "successful (bulk_loop stale_env 1 (length ?urls) 1 (?pre' @ [?url'])
        (initial_state [])) = successful ?st' + 1"
    by (simp only: ok simp_thms if_True)
  from a b c trans [OF d len] g ok e show ?thesis unfolding len by blast
qed

theorem pacing_witness:
  "[''https://www.youtube.com/channel/UCabc123'', ''not-a-url'',
    ''https://www.youtube.com/@someuser''] \<noteq> [] \<and>
   [''https://www.youtube.com/channel/UCabc123'', ''not-a-url'',
    ''https://www.youtube.com/@someuser''] =
     [''https://www.youtube.com/channel/UCabc123''] @ ''not-a-url'' #
     [''https://www.youtube.com/@someuser''] \<and>
   [''https://www.youtube.com/@someuser''] \<noteq> [] \<and>
   sleeps (history (snd (bulk_subscribe stale_env
          [''https://www.youtube.com/channel/UCabc123'', ''not-a-url'',
           ''https://www.youtube.com/@someuser''] 7 []))) = [7, 7] \<and>
   history (snd (bulk_subscribe stale_env
          [''https://www.youtube.com/channel/UCabc123'', ''not-a-url'',
           ''https://www.youtube.com/@someuser''] 7 [])) =
     [Call (SubscriptionsList ''UCabc123''), Call (SubscriptionsInsert ''UCabc123''),
      Sleep 7, Sleep 7, Call (SearchList ''@someuser''),
      Call (SubscriptionsList ''UCsearched''), Call (SubscriptionsInsert ''UCsearched'')]"
proof -
  let ?pre = "[''https://www.youtube.com/channel/UCabc123'']"
  let ?post = "[''https://www.youtube.com/@someuser'']"
  let ?urls = "[''https://www.youtube.com/channel/UCabc123'', ''not-a-url'',
    ''https://www.youtube.com/@someuser'']"
  have a: "?urls \<noteq> []" by simp
  have b: "?urls = ?pre @ ''not-a-url'' # ?post" by simp
  have c: "?post \<noteq> []" by simp
  have "sleeps (history (snd (bulk_subscribe stale_env ?urls 7 []))) =
      sleeps [] @ replicate (length ?urls - 1) 7"
    using pacing [of stale_env ?urls 7 "[]" ?pre "''not-a-url''" ?post] by blast
  also have "\<dots> = [7, 7]" by (simp add: numeral_2_eq_2)
  finally have d: "sleeps (history (snd (bulk_subscribe stale_env ?urls 7 []))) = [7, 7]" .
  have e: "history (snd (bulk_subscribe stale_env ?urls 7 [])) =
     [Call (SubscriptionsList ''UCabc123''), Call (SubscriptionsInsert ''UCabc123''),
      Sleep 7, Sleep 7, Call (SearchList ''@someuser''),
      Call (SubscriptionsList ''UCsearched''), Call (SubscriptionsInsert ''UCsearched'')]"
    by code_simp
  from a b c d e show ?thesis by blast
qed

end
